theory Spec2Isabelle
  imports Main
begin

section \<open>JavaScript values and strings\<close>

text \<open>
  The five conversion functions of \<^verbatim>\<open>assets/js/utilities.js\<close> are embedded as HOL
  functions. A JavaScript string is the list of its code units; an Isabelle \<open>char\<close> is one
  code unit in the range U+0000 .. U+00FF. The values a caller can pass are the JSON-like
  values below (functions, getters and proxies are not values of this type). A number is
  an integer or NaN: the functions only test a number for being falsy. An object is the
  list of its own properties; where a key stands twice, the first one is the property.
\<close>

datatype jsval =
    JUndefined
  | JNull
  | JBool bool
  | JNum int
  | JNaN
  | JStr string
  | JArr "jsval list"
  | JObj "(string \<times> jsval) list"

text \<open>A thrown exception, with its message.\<close>

datatype error = Error string | TypeError string

text \<open>What the console received: \<^verbatim>\<open>console.error(msg)\<close> and \<^verbatim>\<open>console.warn(msg, value)\<close>.\<close>

datatype report = ConsoleError string | ConsoleWarn string jsval

text \<open>\<^verbatim>\<open>!v\<close> is \<open>\<not> truthy v\<close>: undefined, null, false, 0, NaN and the empty string are falsy.\<close>

fun truthy :: "jsval \<Rightarrow> bool" where
  "truthy JUndefined = False"
| "truthy JNull = False"
| "truthy (JBool b) = b"
| "truthy (JNum n) = (n \<noteq> 0)"
| "truthy JNaN = False"
| "truthy (JStr s) = (s \<noteq> [])"
| "truthy (JArr xs) = True"
| "truthy (JObj kvs) = True"

fun typeof :: "jsval \<Rightarrow> string" where
  "typeof JUndefined = ''undefined''"
| "typeof JNull = ''object''"
| "typeof (JBool b) = ''boolean''"
| "typeof (JNum n) = ''number''"
| "typeof JNaN = ''number''"
| "typeof (JStr s) = ''string''"
| "typeof (JArr xs) = ''object''"
| "typeof (JObj kvs) = ''object''"

fun isArray :: "jsval \<Rightarrow> bool" where
  "isArray (JArr xs) = True"
| "isArray v = False"

text \<open>
  Member access \<^verbatim>\<open>v.k\<close> for the keys \<^verbatim>\<open>name\<close> and \<^verbatim>\<open>content\<close>, which no prototype of
  these values defines: it throws a TypeError on undefined and null, reads an own property
  of an object, and is undefined on every other value.
\<close>

fun get_prop :: "jsval \<Rightarrow> string \<Rightarrow> error + jsval" where
  "get_prop JUndefined k = Inl (TypeError ''Cannot read properties of undefined'')"
| "get_prop JNull k = Inl (TypeError ''Cannot read properties of null'')"
| "get_prop (JObj kvs) k = Inr (case map_of kvs k of None \<Rightarrow> JUndefined | Some v \<Rightarrow> v)"
| "get_prop v k = Inr JUndefined"

text \<open>
  White space and line terminators, the characters that \<^verbatim>\<open>trim\<close>, \<^verbatim>\<open>trimEnd\<close> and the
  regular expression class \<^verbatim>\<open>\s\<close> recognise: tab, line feed, vertical tab, form feed,
  carriage return, space and no-break space (the ones that are 8-bit code units).
\<close>

definition is_ws :: "char \<Rightarrow> bool" where
  "is_ws c = (c \<in> set [CHR 0x09, CHR 0x0A, CHR 0x0B, CHR 0x0C, CHR 0x0D, CHR 0x20, CHR 0xA0])"

definition trimStart :: "string \<Rightarrow> string" where
  "trimStart s = dropWhile is_ws s"

definition trimEnd :: "string \<Rightarrow> string" where
  "trimEnd s = rev (dropWhile is_ws (rev s))"

definition trim :: "string \<Rightarrow> string" where
  "trim s = trimEnd (trimStart s)"

text \<open>
  \<^verbatim>\<open>toUpperCase\<close>. The result is given by its 16-bit code units, since the upper-case
  form of an 8-bit code unit need not be one: a..z and the accented letters
  U+00E0 .. U+00FE (but not the division sign U+00F7) move down by 32, the sharp s U+00DF
  becomes SS, the micro sign U+00B5 becomes the Greek capital mu U+039C, the y with
  diaeresis U+00FF becomes U+0178, every other character stays.
\<close>

definition upper_char :: "char \<Rightarrow> nat list" where
  "upper_char c =
     (let n = (of_char c :: nat) in
      if 97 \<le> n \<and> n \<le> 122 then [n - 32]
      else if n = 223 then [83, 83]
      else if 224 \<le> n \<and> n \<le> 254 \<and> n \<noteq> 247 then [n - 32]
      else if n = 181 then [924]
      else if n = 255 then [376]
      else [n])"

definition toUpperCase :: "string \<Rightarrow> nat list" where
  "toUpperCase s = concat (map upper_char s)"

text \<open>The code units of a string.\<close>

definition code_units :: "string \<Rightarrow> nat list" where
  "code_units s = map of_char s"

text \<open>
  \<^verbatim>\<open>u === v\<close> for an upper-cased string \<open>u\<close>: \<open>v\<close> is a string and has the code units
  of \<open>u\<close>.
\<close>

fun strict_equals :: "nat list \<Rightarrow> jsval \<Rightarrow> bool" where
  "strict_equals u (JStr s) = (u = code_units s)"
| "strict_equals u v = False"

text \<open>
  \<^verbatim>\<open>s.replace(pat, '')\<close> with a string pattern: the first occurrence of \<open>pat\<close> in \<open>s\<close> is
  removed; \<open>s\<close> is returned as it is when \<open>pat\<close> does not occur.
\<close>

fun starts_with :: "string \<Rightarrow> string \<Rightarrow> bool" where
  "starts_with [] s = True"
| "starts_with (p # ps) [] = False"
| "starts_with (p # ps) (x # xs) = (p = x \<and> starts_with ps xs)"

fun remove_first :: "string \<Rightarrow> string \<Rightarrow> string" where
  "remove_first pat [] = []"
| "remove_first pat (x # xs) =
     (if starts_with pat (x # xs) then drop (length pat) (x # xs)
      else x # remove_first pat xs)"

text \<open>
  \<^verbatim>\<open>s.replace(/c/g, repl)\<close> for a pattern that is the single character \<open>c\<close>: every
  occurrence is replaced.
\<close>

definition replace_all_char :: "char \<Rightarrow> string \<Rightarrow> string \<Rightarrow> string" where
  "replace_all_char c repl s = concat (map (\<lambda>x. if x = c then repl else [x]) s)"

section \<open>Regular expressions\<close>

text \<open>
  The patterns of the source are sequences of literal characters, quantified character
  classes and capture groups that are not nested. A pattern is a list of items;
  \<open>Rep cls n q\<close> is the class \<open>cls\<close> repeated at least \<open>n\<close> times, greedily or lazily.
  The matcher is the backtracking matcher of ECMAScript: a greedy repetition first tries
  to take one more character and falls back to the rest of the pattern, a lazy one first
  tries the rest of the pattern. The state holds the text matched so far, the captures of
  the closed groups and the text of the open group.
\<close>

datatype quantifier = Greedy | Lazy

datatype item = Lit char | Rep "char \<Rightarrow> bool" nat quantifier | GroupOpen | GroupClose

type_synonym mstate = "string \<times> string list \<times> string option"

fun consume :: "char \<Rightarrow> mstate \<Rightarrow> mstate" where
  "consume c (whole, groups, cur) = (whole @ [c], groups, map_option (\<lambda>g. g @ [c]) cur)"

fun group_open :: "mstate \<Rightarrow> mstate" where
  "group_open (whole, groups, cur) = (whole, groups, Some [])"

fun group_close :: "mstate \<Rightarrow> mstate" where
  "group_close (whole, groups, cur) =
     (whole, groups @ [case cur of None \<Rightarrow> [] | Some g \<Rightarrow> g], None)"

fun rmatch :: "item list \<Rightarrow> string \<Rightarrow> mstate \<Rightarrow> (mstate \<times> string) option" where
  "rmatch [] s st = Some (st, s)"
| "rmatch (Lit c # r) [] st = None"
| "rmatch (Lit c # r) (x # xs) st = (if x = c then rmatch r xs (consume x st) else None)"
| "rmatch (GroupOpen # r) s st = rmatch r s (group_open st)"
| "rmatch (GroupClose # r) s st = rmatch r s (group_close st)"
| "rmatch (Rep cls (Suc n) q # r) [] st = None"
| "rmatch (Rep cls (Suc n) q # r) (x # xs) st =
     (if cls x then rmatch (Rep cls n q # r) xs (consume x st) else None)"
| "rmatch (Rep cls 0 Greedy # r) [] st = rmatch r [] st"
| "rmatch (Rep cls 0 Greedy # r) (x # xs) st =
     (if cls x then
        (case rmatch (Rep cls 0 Greedy # r) xs (consume x st) of
           Some res \<Rightarrow> Some res
         | None \<Rightarrow> rmatch r (x # xs) st)
      else rmatch r (x # xs) st)"
| "rmatch (Rep cls 0 Lazy # r) [] st = rmatch r [] st"
| "rmatch (Rep cls 0 Lazy # r) (x # xs) st =
     (case rmatch r (x # xs) st of
        Some res \<Rightarrow> Some res
      | None \<Rightarrow> if cls x then rmatch (Rep cls 0 Lazy # r) xs (consume x st) else None)"

text \<open>
  The search of \<^verbatim>\<open>exec\<close> and \<^verbatim>\<open>replace\<close>: the match is tried at the first position, then
  at each later one, the end of the text included. The result is the text skipped before
  the match, the matcher's state, and the text after the match.
\<close>

fun search :: "item list \<Rightarrow> string \<Rightarrow> (string \<times> mstate \<times> string) option" where
  "search re [] =
     (case rmatch re [] ([], [], None) of
        Some (st, rest) \<Rightarrow> Some ([], st, rest)
      | None \<Rightarrow> None)"
| "search re (x # xs) =
     (case rmatch re (x # xs) ([], [], None) of
        Some (st, rest) \<Rightarrow> Some ([], st, rest)
      | None \<Rightarrow>
          (case search re xs of
             Some (pre, st, rest) \<Rightarrow> Some (x # pre, st, rest)
           | None \<Rightarrow> None))"

text \<open>
  \<^verbatim>\<open>regex.exec(text)\<close> of a regular expression with the \<^verbatim>\<open>g\<close> flag. The argument is the
  text from \<^verbatim>\<open>lastIndex\<close> on. The result is the match array (the whole match, then the
  groups) and the text from the new \<^verbatim>\<open>lastIndex\<close> on; None is \<^verbatim>\<open>null\<close>.
\<close>

definition exec :: "item list \<Rightarrow> string \<Rightarrow> (string list \<times> string) option" where
  "exec re s =
     (case search re s of
        None \<Rightarrow> None
      | Some (pre, (whole, groups, cur), rest) \<Rightarrow> Some (whole # groups, rest))"

text \<open>\<^verbatim>\<open>s.replace(re, '')\<close> of a regular expression without the \<^verbatim>\<open>g\<close> flag: the first match is removed.\<close>

definition remove_match :: "item list \<Rightarrow> string \<Rightarrow> string" where
  "remove_match re s =
     (case search re s of
        None \<Rightarrow> s
      | Some (pre, st, rest) \<Rightarrow> pre @ rest)"

text \<open>The character class \<^verbatim>\<open>[A-Za-z0-9_ -]\<close>.\<close>

definition label_char :: "char \<Rightarrow> bool" where
  "label_char c =
     (let n = (of_char c :: nat) in
      (65 \<le> n \<and> n \<le> 90) \<or> (97 \<le> n \<and> n \<le> 122) \<or> (48 \<le> n \<and> n \<le> 57)
      \<or> c = CHR ''_'' \<or> c = CHR '' '' \<or> c = CHR ''-'')"

text \<open>With the \<^verbatim>\<open>s\<close> flag the dot matches every character, line terminators included.\<close>

definition any_char :: "char \<Rightarrow> bool" where
  "any_char c = True"

text \<open>\<^verbatim>\<open>/([A-Za-z0-9_ -]+):\s*(.*?)\n\n/gs\<close>\<close>

definition block_regex :: "item list" where
  "block_regex =
     [GroupOpen, Rep label_char 1 Greedy, GroupClose, Lit CHR '':'', Rep is_ws 0 Greedy,
      GroupOpen, Rep any_char 0 Lazy, GroupClose, Lit CHR 0x0A, Lit CHR 0x0A]"

text \<open>\<^verbatim>\<open>/:\s*/\<close>\<close>

definition colon_regex :: "item list" where
  "colon_regex = [Lit CHR '':'', Rep is_ws 0 Greedy]"


text \<open>
  Every match takes at least as many characters as the literals and the required
  repetitions of the pattern, so a loop over the matches of \<open>block_regex\<close> ends.
\<close>

fun min_len :: "item list \<Rightarrow> nat" where
  "min_len [] = 0"
| "min_len (Lit c # r) = Suc (min_len r)"
| "min_len (Rep cls n q # r) = n + min_len r"
| "min_len (GroupOpen # r) = min_len r"
| "min_len (GroupClose # r) = min_len r"

lemma rmatch_length:
  "rmatch re s st = Some (st', rest) \<Longrightarrow> length rest + min_len re \<le> length s"
proof (induction re s st arbitrary: st' rest rule: rmatch.induct)
  case (1 s st)
  then show ?case by simp
next
  case (2 c r st)
  then show ?case by simp
next
  case (3 c r x xs st)
  show ?case
  proof (cases "x = c")
    case True
    with "3.prems" have "rmatch r xs (consume x st) = Some (st', rest)"
      by simp
    with "3.IH" [OF True] show ?thesis
      by simp
  next
    case False
    with "3.prems" show ?thesis
      by simp
  qed
next
  case (4 r s st)
  then show ?case by simp
next
  case (5 r s st)
  then show ?case by simp
next
  case (6 cls n q r st)
  then show ?case by simp
next
  case (7 cls n q r x xs st)
  show ?case
  proof (cases "cls x")
    case True
    with "7.prems" have "rmatch (Rep cls n q # r) xs (consume x st) = Some (st', rest)"
      by simp
    with "7.IH" [OF True] show ?thesis
      by simp
  next
    case False
    with "7.prems" show ?thesis
      by simp
  qed
next
  case (8 cls r st)
  then show ?case by simp
next
  case (9 cls r x xs st)
  show ?case
  proof (cases "cls x")
    case True
    show ?thesis
    proof (cases "rmatch (Rep cls 0 Greedy # r) xs (consume x st)")
      case None
      with True "9.prems" have "rmatch r (x # xs) st = Some (st', rest)"
        by simp
      with "9.IH"(2) [OF True None] show ?thesis
        by simp
    next
      case (Some res)
      with True "9.prems" have "res = (st', rest)"
        by simp
      with "9.IH"(1) [OF True] Some have "length rest + min_len (Rep cls 0 Greedy # r) \<le> length xs"
        by simp
      then show ?thesis
        by simp
    qed
  next
    case False
    with "9.prems" have "rmatch r (x # xs) st = Some (st', rest)"
      by simp
    with "9.IH"(3) [OF False] show ?thesis
      by simp
  qed
next
  case (10 cls r st)
  then show ?case by simp
next
  case (11 cls r x xs st)
  show ?case
  proof (cases "rmatch r (x # xs) st")
    case None
    with "11.prems" have c: "cls x" and m: "rmatch (Rep cls 0 Lazy # r) xs (consume x st) = Some (st', rest)"
      by (simp_all split: if_splits)
    from "11.IH"(2) [OF None c m] show ?thesis
      by simp
  next
    case (Some res)
    with "11.prems" have "res = (st', rest)"
      by simp
    with "11.IH"(1) Some show ?thesis
      by simp
  qed
qed

lemma search_length:
  "search re s = Some (pre, st, rest) \<Longrightarrow> length rest + min_len re \<le> length s"
proof (induction s arbitrary: pre st rest)
  case Nil
  then show ?case by (auto split: option.splits dest: rmatch_length)
next
  case (Cons x xs)
  then show ?case by (fastforce split: option.splits dest: rmatch_length)
qed

lemma exec_block_shorter:
  "exec block_regex s = Some (match, rest) \<Longrightarrow> length rest < length s"
  by (auto simp: exec_def block_regex_def split: option.splits dest!: search_length)

section \<open>The conversion functions\<close>

text \<open>The object literal \<^verbatim>\<open>{ role: role, name: speaker, content: utterance }\<close>.\<close>

definition message :: "string \<Rightarrow> string \<Rightarrow> string \<Rightarrow> jsval" where
  "message role name content =
     JObj [(''role'', JStr role), (''name'', JStr name), (''content'', JStr content)]"

text \<open>The string a value holds, read only after \<^verbatim>\<open>typeof v === 'string'\<close> has been tested.\<close>

fun the_string :: "jsval \<Rightarrow> string" where
  "the_string (JStr s) = s"
| "the_string v = []"

text \<open>The elements of an array, read only after \<^verbatim>\<open>Array.isArray(v)\<close> has been tested.\<close>

fun the_array :: "jsval \<Rightarrow> jsval list" where
  "the_array (JArr xs) = xs"
| "the_array v = []"

text \<open>
  \<^verbatim>\<open>forEach\<close> with a callback that updates the variables it closes over and may throw:
  an exception ends the loop.
\<close>

fun forEach :: "('s \<Rightarrow> 'a \<Rightarrow> error + 's) \<Rightarrow> 'a list \<Rightarrow> 's \<Rightarrow> error + 's" where
  "forEach f [] st = Inr st"
| "forEach f (x # xs) st = (case f st x of Inl e \<Rightarrow> Inl e | Inr st' \<Rightarrow> forEach f xs st')"

subsection \<open>platoHtml\<close>

text \<open>
  The markup parser is the platform's. What the functions read of a parsed document is,
  for each element of \<^verbatim>\<open>doc.querySelectorAll('p.dialogue')\<close> in document order, its
  \<^verbatim>\<open>textContent\<close> and the \<^verbatim>\<open>textContent\<close> of \<^verbatim>\<open>p.querySelector('span.speaker')\<close>, None when
  that is \<^verbatim>\<open>null\<close>. The functions take the map from a markup string to this list as the
  parameter \<open>dialogueParagraphs\<close>, and the value of \<^verbatim>\<open>machineConfig.name\<close> as the
  parameter \<open>machineName\<close>.
\<close>

record p_dialogue =
  textContent :: string
  speakerSpan :: "string option"

text \<open>\<^verbatim>\<open>p.textContent.replace(speakerSpan.textContent, '').replace(/:\s*/, '').trim()\<close>\<close>

definition html_utterance :: "string \<Rightarrow> string \<Rightarrow> string" where
  "html_utterance spanText pText = trim (remove_match colon_regex (remove_first spanText pText))"

text \<open>Lines 23 to 28: the role of a speaker, with the configured machine name.\<close>

definition html_role :: "jsval \<Rightarrow> string \<Rightarrow> string" where
  "html_role machineName speaker =
     (if strict_equals (toUpperCase speaker) machineName then ''assistant''
      else if toUpperCase speaker = code_units ''INSTRUCTIONS'' then ''system''
      else ''user'')"

definition html_cmj_step :: "jsval \<Rightarrow> jsval list \<Rightarrow> p_dialogue \<Rightarrow> jsval list" where
  "html_cmj_step machineName messages p =
     (case speakerSpan p of
        None \<Rightarrow> messages
      | Some spanText \<Rightarrow>
          (let speaker = trim spanText;
               utterance = html_utterance spanText (textContent p);
               role = html_role machineName speaker
           in messages @ [message role speaker utterance]))"

definition platoHtmlToCmj :: "(string \<Rightarrow> p_dialogue list) \<Rightarrow> jsval \<Rightarrow> jsval \<Rightarrow> error + jsval" where
  "platoHtmlToCmj dialogueParagraphs machineName platoHtml =
     (if \<not> truthy platoHtml \<or> typeof platoHtml \<noteq> ''string''
      then Inl (Error ''Invalid input: platoHtml must be a non-empty string'')
      else Inr (JArr (foldl (html_cmj_step machineName) []
                        (dialogueParagraphs (the_string platoHtml)))))"

definition html_text_step :: "string \<Rightarrow> p_dialogue \<Rightarrow> string" where
  "html_text_step result p =
     (case speakerSpan p of
        None \<Rightarrow> result
      | Some spanText \<Rightarrow>
          (let speaker = trim spanText;
               utterance = html_utterance spanText (textContent p)
           in result @ speaker @ '': '' @ utterance @ [CHR 0x0A, CHR 0x0A]))"

definition platoHtmlToPlatoText :: "(string \<Rightarrow> p_dialogue list) \<Rightarrow> jsval \<Rightarrow> error + string" where
  "platoHtmlToPlatoText dialogueParagraphs platoHtml =
     (if typeof platoHtml \<noteq> ''string''
      then Inl (Error ''Invalid input: platoHtml must be a string'')
      else if trim (the_string platoHtml) = [] then Inr []
      else Inr (foldl html_text_step [] (dialogueParagraphs (the_string platoHtml))))"

subsection \<open>platoText\<close>

text \<open>\<^verbatim>\<open>.replace(/</g, '&lt;').replace(/>/g, '&gt;')\<close>\<close>

definition escape_html :: "string \<Rightarrow> string" where
  "escape_html s = replace_all_char CHR ''>'' ''&gt;'' (replace_all_char CHR ''<'' ''&lt;'' s)"

text \<open>The template literal of line 92.\<close>

definition html_paragraph :: "string \<Rightarrow> string \<Rightarrow> string" where
  \<open>html_paragraph speaker utterance =
     ''<p class="dialogue"><span class="speaker">'' @ speaker @ ''</span> '' @ utterance
       @ ''</p>'' @ [CHR 0x0A]\<close>

text \<open>
  The loop of lines 89 to 93. The first argument is the text from the regular
  expression's \<^verbatim>\<open>lastIndex\<close> on, the second is \<^verbatim>\<open>result\<close>.
\<close>

function text_html_loop :: "string \<Rightarrow> string \<Rightarrow> string" where
  "text_html_loop s result =
     (case exec block_regex s of
        None \<Rightarrow> result
      | Some (match, rest) \<Rightarrow>
          (let speaker = trim (match ! 1);
               utterance = escape_html (trim (match ! 2))
           in text_html_loop rest (result @ html_paragraph speaker utterance)))"
  by pat_completeness auto
termination
proof (relation "measure (\<lambda>(s, result). length s)")
  fix s result :: string and found :: "string list \<times> string" and match rest speaker utterance
  assume a: "exec block_regex s = Some found" and b: "(match, rest) = found"
  have "exec block_regex s = Some (match, rest)"
    unfolding b by (rule a)
  then have "length rest < length s"
    by (rule exec_block_shorter)
  then show "((rest, result @ html_paragraph speaker utterance), s, result)
      \<in> measure (\<lambda>(s, result). length s)"
    by simp
qed simp

declare text_html_loop.simps [simp del]

definition platoTextToPlatoHtml :: "jsval \<Rightarrow> error + string" where
  "platoTextToPlatoHtml platoText =
     (if typeof platoText \<noteq> ''string''
      then Inl (Error ''Invalid input: platoText must be a string'')
      else if trim (the_string platoText) = [] then Inr []
      else Inr (trimEnd (text_html_loop (the_string platoText) [])))"

text \<open>Lines 116 to 121: the role of a speaker, with the fixed machine name.\<close>

definition text_role :: "string \<Rightarrow> string" where
  "text_role speaker =
     (if toUpperCase speaker = code_units ''MACHINA RATIOCINATRIX'' then ''assistant''
      else if toUpperCase speaker = code_units ''INSTRUCTIONS'' then ''system''
      else ''user'')"

text \<open>The loop of lines 112 to 128; the second argument is \<^verbatim>\<open>messages\<close>.\<close>

function text_cmj_loop :: "string \<Rightarrow> jsval list \<Rightarrow> jsval list" where
  "text_cmj_loop s messages =
     (case exec block_regex s of
        None \<Rightarrow> messages
      | Some (match, rest) \<Rightarrow>
          (let speaker = trim (match ! 1);
               utterance = trim (match ! 2);
               role = text_role speaker
           in text_cmj_loop rest (messages @ [message role speaker utterance])))"
  by pat_completeness auto
termination
proof (relation "measure (\<lambda>(s, messages). length s)")
  fix s :: string and messages :: "jsval list" and found :: "string list \<times> string"
    and match rest speaker utterance role
  assume a: "exec block_regex s = Some found" and b: "(match, rest) = found"
  have "exec block_regex s = Some (match, rest)"
    unfolding b by (rule a)
  then have "length rest < length s"
    by (rule exec_block_shorter)
  then show "((rest, messages @ [message role speaker utterance]), s, messages)
      \<in> measure (\<lambda>(s, messages). length s)"
    by simp
qed simp

declare text_cmj_loop.simps [simp del]

definition platoTextToCmj :: "jsval \<Rightarrow> error + jsval" where
  "platoTextToCmj platoText =
     (if \<not> truthy platoText \<or> typeof platoText \<noteq> ''string''
      then Inl (Error ''Invalid input: platoText must be a non-empty string'')
      else Inr (JArr (text_cmj_loop (the_string platoText) [])))"

subsection \<open>CMJ\<close>

text \<open>
  The callback of lines 147 to 158. The state is \<^verbatim>\<open>platoText\<close> and what the console has
  received. The conjunction is evaluated from the left and stops at the first falsy
  operand, so a property of \<open>message\<close> is read only when \<open>message\<close> is truthy.
\<close>

definition skipped :: "jsval \<Rightarrow> report" where
  "skipped m =
     ConsoleWarn ''Skipping malformed CMJ message object during CmjToPlatoText conversion:'' m"

definition cmj_step :: "string \<times> report list \<Rightarrow> jsval \<Rightarrow> error + string \<times> report list" where
  "cmj_step acc m =
     (case acc of (platoText, console) \<Rightarrow>
        if truthy m then
          (case get_prop m ''name'' of
             Inl e \<Rightarrow> Inl e
           | Inr name \<Rightarrow>
               if typeof name = ''string'' then
                 (case get_prop m ''content'' of
                    Inl e \<Rightarrow> Inl e
                  | Inr content \<Rightarrow>
                      if typeof content = ''string'' then
                        (let speaker = trim (the_string name);
                             utterance = trim (the_string content)
                         in Inr (platoText @ speaker @ '': '' @ utterance @ [CHR 0x0A, CHR 0x0A],
                                 console))
                      else Inr (platoText, console @ [skipped m]))
               else Inr (platoText, console @ [skipped m]))
        else Inr (platoText, console @ [skipped m]))"

text \<open>The result is the returned string and what the console has received.\<close>

definition CmjToPlatoText :: "jsval \<Rightarrow> error + string \<times> report list" where
  "CmjToPlatoText cmjMessages =
     (if \<not> isArray cmjMessages
      then Inr ([], [ConsoleError ''Invalid input: cmjMessages must be an array.''])
      else forEach cmj_step (the_array cmjMessages) ([], []))"


section \<open>Notions used in the statements\<close>

text \<open>
  The (speaker, utterance) records that the loops over the matches of \<open>block_regex\<close>
  extract from a text, in the order of the matches.
\<close>

function text_records :: "string \<Rightarrow> (string \<times> string) list" where
  "text_records s =
     (case exec block_regex s of
        None \<Rightarrow> []
      | Some (match, rest) \<Rightarrow> (trim (match ! 1), trim (match ! 2)) # text_records rest)"
  by pat_completeness auto
termination
proof (relation "measure length")
  fix s :: string and found :: "string list \<times> string" and match rest
  assume a: "exec block_regex s = Some found" and b: "(match, rest) = found"
  have "exec block_regex s = Some (match, rest)"
    unfolding b by (rule a)
  then have "length rest < length s"
    by (rule exec_block_shorter)
  then show "(rest, s) \<in> measure length"
    by simp
qed simp

declare text_records.simps [simp del]

text \<open>
  The (speaker, utterance) records of the dialogue paragraphs of a document: one for each
  paragraph that has a speaker label, in document order.
\<close>

definition html_record :: "p_dialogue \<Rightarrow> (string \<times> string) option" where
  "html_record p =
     (case speakerSpan p of
        None \<Rightarrow> None
      | Some spanText \<Rightarrow> Some (trim spanText, html_utterance spanText (textContent p)))"

definition html_records :: "p_dialogue list \<Rightarrow> (string \<times> string) list" where
  "html_records ps = List.map_filter html_record ps"

text \<open>The value of the field \<open>k\<close> of an entry, when the entry is an object and the field is a string.\<close>

fun string_field :: "jsval \<Rightarrow> string \<Rightarrow> string option" where
  "string_field (JObj kvs) k = (case map_of kvs k of Some (JStr s) \<Rightarrow> Some s | _ \<Rightarrow> None)"
| "string_field v k = None"

text \<open>An entry is well formed when its name and its content are strings.\<close>

definition well_formed :: "jsval \<Rightarrow> bool" where
  "well_formed m = (string_field m ''name'' \<noteq> None \<and> string_field m ''content'' \<noteq> None)"

text \<open>The block of platoText of an entry: nothing for an entry that is not well formed.\<close>

definition cmj_block :: "jsval \<Rightarrow> string" where
  "cmj_block m =
     (case string_field m ''name'' of
        None \<Rightarrow> []
      | Some name \<Rightarrow>
          (case string_field m ''content'' of
             None \<Rightarrow> []
           | Some content \<Rightarrow> trim name @ '': '' @ trim content @ ''\<newline>\<newline>''))"

text \<open>
  The escaping of one character as the specification words it: \<^verbatim>\<open><\<close> becomes \<^verbatim>\<open>&lt;\<close>, \<^verbatim>\<open>>\<close>
  becomes \<^verbatim>\<open>&gt;\<close>, every other character stays.
\<close>

definition escape_char :: "char \<Rightarrow> string" where
  "escape_char c = (if c = CHR ''<'' then ''&lt;'' else if c = CHR ''>'' then ''&gt;'' else [c])"

text \<open>
  A message as the two CMJ-producing functions should return it: an object with the
  fields role, name and content, the role one of the three role names, the name and the
  content unchanged by \<open>trim\<close>.
\<close>

fun is_cmj_message :: "jsval \<Rightarrow> bool" where
  "is_cmj_message (JObj [(k1, JStr role), (k2, JStr name), (k3, JStr content)]) =
     (k1 = ''role'' \<and> k2 = ''name'' \<and> k3 = ''content''
      \<and> role \<in> set [''user'', ''assistant'', ''system'']
      \<and> trim name = name \<and> trim content = content)"
| "is_cmj_message v = False"

text \<open>The round trip: \<open>CmjToPlatoText\<close>, then \<open>platoTextToCmj\<close> on the text it returns.\<close>

definition round_trip :: "jsval \<Rightarrow> error + jsval" where
  "round_trip cmjMessages =
     (case CmjToPlatoText cmjMessages of
        Inl e \<Rightarrow> Inl e
      | Inr (platoText, console) \<Rightarrow> platoTextToCmj (JStr platoText))"

text \<open>The name and the content of a well-formed entry.\<close>

definition entry_name :: "jsval \<Rightarrow> string" where
  "entry_name m = (case string_field m ''name'' of None \<Rightarrow> [] | Some name \<Rightarrow> name)"

definition entry_content :: "jsval \<Rightarrow> string" where
  "entry_content m = (case string_field m ''content'' of None \<Rightarrow> [] | Some content \<Rightarrow> content)"

text \<open>
  An entry up to trimming and re-derivation of the role: the trimmed name, the trimmed
  content, and the role that the text path gives to the trimmed name.
\<close>

definition reclassified :: "jsval \<Rightarrow> jsval" where
  "reclassified m =
     message (text_role (trim (entry_name m))) (trim (entry_name m)) (trim (entry_content m))"

text \<open>A text has a blank line when two line feeds follow each other in it.\<close>

fun has_blank_line :: "string \<Rightarrow> bool" where
  "has_blank_line (a # b # r) = ((a = CHR 0x0A \<and> b = CHR 0x0A) \<or> has_blank_line (b # r))"
| "has_blank_line s = False"

text \<open>
  The arrays that survive the round trip: in every entry the name and the content are
  strings, the trimmed name is not empty and consists of characters of the label class,
  and the trimmed content has no blank line; the trimmed content is not empty, except
  that of the last entry, which may be.
\<close>

fun round_trip_entries :: "jsval list \<Rightarrow> bool" where
  "round_trip_entries [] = True"
| "round_trip_entries (m # ms) =
     (well_formed m
      \<and> trim (entry_name m) \<noteq> [] \<and> list_all label_char (trim (entry_name m))
      \<and> \<not> has_blank_line (trim (entry_content m))
      \<and> (trim (entry_content m) \<noteq> [] \<or> ms = [])
      \<and> round_trip_entries ms)"

text \<open>The returned value of a call, without the console.\<close>

definition returned :: "error + 'a \<times> report list \<Rightarrow> error + 'a" where
  "returned r = map_sum id fst r"


section \<open>Trimming\<close>

lemma trimStart_fixed: "s = [] \<or> \<not> is_ws (hd s) \<Longrightarrow> trimStart s = s"
  by (cases s) (simp_all add: trimStart_def)

lemma trimEnd_fixed: "s = [] \<or> \<not> is_ws (last s) \<Longrightarrow> trimEnd s = s"
proof (cases s rule: rev_cases)
  case Nil
  then show ?thesis by (simp add: trimEnd_def)
next
  case (snoc ys y)
  assume "s = [] \<or> \<not> is_ws (last s)"
  with snoc show ?thesis by (simp add: trimEnd_def)
qed

lemma trim_fixed:
  "s = [] \<or> (\<not> is_ws (hd s) \<and> \<not> is_ws (last s)) \<Longrightarrow> trim s = s"
  unfolding trim_def by (auto simp: trimStart_fixed trimEnd_fixed)

lemma hd_trimStart: "trimStart s \<noteq> [] \<Longrightarrow> \<not> is_ws (hd (trimStart s))"
  unfolding trimStart_def by (rule hd_dropWhile)

lemma last_trimEnd: "trimEnd s \<noteq> [] \<Longrightarrow> \<not> is_ws (last (trimEnd s))"
proof -
  assume a: "trimEnd s \<noteq> []"
  then have "dropWhile is_ws (rev s) \<noteq> []"
    by (simp add: trimEnd_def)
  then have "\<not> is_ws (hd (dropWhile is_ws (rev s)))"
    by (rule hd_dropWhile)
  with a show ?thesis
    by (simp add: trimEnd_def last_rev)
qed

lemma trimEnd_prefix: "\<exists>zs. s = trimEnd s @ zs"
proof -
  have "rev (takeWhile is_ws (rev s) @ dropWhile is_ws (rev s)) = rev (rev s)"
    by (simp only: takeWhile_dropWhile_id)
  then have "trimEnd s @ rev (takeWhile is_ws (rev s)) = s"
    by (simp only: rev_append rev_rev_ident trimEnd_def)
  then have "s = trimEnd s @ rev (takeWhile is_ws (rev s))"
    by (rule sym)
  then show ?thesis ..
qed

lemma hd_trimEnd: "trimEnd s \<noteq> [] \<Longrightarrow> hd (trimEnd s) = hd s"
proof -
  assume a: "trimEnd s \<noteq> []"
  obtain zs where "s = trimEnd s @ zs"
    using trimEnd_prefix by blast
  then have "hd s = hd (trimEnd s @ zs)"
    by simp
  with a show ?thesis
    by simp
qed

lemma trim_ends: "trim s \<noteq> [] \<Longrightarrow> \<not> is_ws (hd (trim s)) \<and> \<not> is_ws (last (trim s))"
proof -
  assume a: "trim s \<noteq> []"
  then have b: "trimStart s \<noteq> []"
    by (auto simp: trim_def trimEnd_def)
  from a have "hd (trim s) = hd (trimStart s)"
    unfolding trim_def by (rule hd_trimEnd)
  with hd_trimStart [OF b] have "\<not> is_ws (hd (trim s))"
    by simp
  moreover from a have "\<not> is_ws (last (trim s))"
    unfolding trim_def by (rule last_trimEnd)
  ultimately show ?thesis ..
qed

lemma trim_empty: "trim [] = []"
  by (simp add: trim_def trimStart_def trimEnd_def)

lemma trim_trim: "trim (trim s) = trim s"
  using trim_ends [of s] by (intro trim_fixed) blast

lemma dropWhile_all: "list_all P s \<Longrightarrow> dropWhile P s = []"
  by (induction s) simp_all

lemma trim_all_ws: "list_all is_ws s \<Longrightarrow> trim s = []"
  by (simp add: trim_def trimStart_def trimEnd_def dropWhile_all)



section \<open>The serializer of messages, entry by entry\<close>

lemma truthy_get_prop: "truthy m \<Longrightarrow> \<exists>v. get_prop m k = Inr v"
  by (cases m) simp_all

lemma string_field_get_prop:
  "truthy m \<Longrightarrow> string_field m k = Some s \<longleftrightarrow> get_prop m k = Inr (JStr s)"
  by (cases m) (auto split: option.splits jsval.splits)

lemma typeof_string: "typeof v = ''string'' \<longleftrightarrow> (\<exists>s. v = JStr s)"
  by (cases v) simp_all

lemma string_field_falsy: "\<not> truthy m \<Longrightarrow> string_field m k = None"
  by (cases m) simp_all

lemma cmj_step_block:
  "cmj_step (t, con) m =
     Inr (t @ cmj_block m, con @ (if well_formed m then [] else [skipped m]))"
proof (cases "truthy m")
  case False
  then show ?thesis
    by (simp add: cmj_step_def cmj_block_def well_formed_def string_field_falsy)
next
  case True
  then obtain nm where nm: "get_prop m ''name'' = Inr nm"
    using truthy_get_prop by blast
  from True obtain ct where ct: "get_prop m ''content'' = Inr ct"
    using truthy_get_prop by blast
  show ?thesis
  proof (cases "typeof nm = ''string''")
    case False
    then have "string_field m ''name'' = None"
      using string_field_get_prop [OF True, of "''name''"] nm
      by (cases "string_field m ''name''") (auto simp: typeof_string)
    with True nm False show ?thesis
      by (simp add: cmj_step_def cmj_block_def well_formed_def)
  next
    case nstr: True
    then obtain n where n: "nm = JStr n"
      by (auto simp: typeof_string)
    then have fn: "string_field m ''name'' = Some n"
      using string_field_get_prop [OF True, of "''name''" n] nm by simp
    show ?thesis
    proof (cases "typeof ct = ''string''")
      case False
      then have "string_field m ''content'' = None"
        using string_field_get_prop [OF True, of "''content''"] ct
        by (cases "string_field m ''content''") (auto simp: typeof_string)
      with True nm ct n fn False show ?thesis
        by (simp add: cmj_step_def cmj_block_def well_formed_def)
    next
      case cstr: True
      then obtain c where c: "ct = JStr c"
        by (auto simp: typeof_string)
      then have fc: "string_field m ''content'' = Some c"
        using string_field_get_prop [OF True, of "''content''" c] ct by simp
      with True nm ct n fn c show ?thesis
        by (simp add: cmj_step_def cmj_block_def well_formed_def)
    qed
  qed
qed

lemma forEach_cmj_step:
  "forEach cmj_step ms (t, con) =
     Inr (t @ concat (map cmj_block ms),
          con @ map skipped (filter (\<lambda>m. \<not> well_formed m) ms))"
  by (induction ms arbitrary: t con) (simp_all add: cmj_step_block)

lemma CmjToPlatoText_array:
  "CmjToPlatoText (JArr ms) =
     Inr (concat (map cmj_block ms), map skipped (filter (\<lambda>m. \<not> well_formed m) ms))"
  by (simp add: CmjToPlatoText_def forEach_cmj_step)



section \<open>The loops, as maps over the extracted records\<close>

lemma text_cmj_loop_records:
  "text_cmj_loop s msgs
     = msgs @ map (\<lambda>(speaker, utterance). message (text_role speaker) speaker utterance)
                (text_records s)"
proof (induction s msgs rule: text_cmj_loop.induct)
  case (1 s messages)
  show ?case
  proof (cases "exec block_regex s")
    case None
    then show ?thesis
      by (subst text_cmj_loop.simps, subst text_records.simps) simp
  next
    case (Some found)
    obtain match rest where found: "found = (match, rest)"
      by (cases found)
    have "text_cmj_loop rest (messages @ [message (text_role (trim (match ! 1))) (trim (match ! 1)) (trim (match ! 2))])
        = (messages @ [message (text_role (trim (match ! 1))) (trim (match ! 1)) (trim (match ! 2))])
          @ map (\<lambda>(speaker, utterance). message (text_role speaker) speaker utterance) (text_records rest)"
      using Some found by (intro "1.IH") simp_all
    with Some found show ?thesis
      by (subst text_cmj_loop.simps, subst text_records.simps) (simp add: Let_def)
  qed
qed

lemma text_html_loop_records:
  "text_html_loop s result
     = result @ concat (map (\<lambda>(speaker, utterance). html_paragraph speaker (escape_html utterance))
                          (text_records s))"
proof (induction s result rule: text_html_loop.induct)
  case (1 s result)
  show ?case
  proof (cases "exec block_regex s")
    case None
    then show ?thesis
      by (subst text_html_loop.simps, subst text_records.simps) simp
  next
    case (Some found)
    obtain match rest where found: "found = (match, rest)"
      by (cases found)
    have "text_html_loop rest (result @ html_paragraph (trim (match ! 1)) (escape_html (trim (match ! 2))))
        = (result @ html_paragraph (trim (match ! 1)) (escape_html (trim (match ! 2))))
          @ concat (map (\<lambda>(speaker, utterance). html_paragraph speaker (escape_html utterance)) (text_records rest))"
      using Some found by (intro "1.IH") simp_all
    with Some found show ?thesis
      by (subst text_html_loop.simps, subst text_records.simps) (simp add: Let_def)
  qed
qed

lemma html_cmj_fold_records:
  "foldl (html_cmj_step machineName) msgs ps
     = msgs @ map (\<lambda>(speaker, utterance). message (html_role machineName speaker) speaker utterance)
                (html_records ps)"
  by (induction ps arbitrary: msgs)
    (simp_all add: html_records_def html_cmj_step_def html_record_def Let_def
      split: option.splits)

lemma html_text_fold_records:
  "foldl html_text_step result ps
     = result @ concat (map (\<lambda>(speaker, utterance). speaker @ '': '' @ utterance @ ''\<newline>\<newline>'')
                          (html_records ps))"
  by (induction ps arbitrary: result)
    (simp_all add: html_records_def html_text_step_def html_record_def Let_def
      split: option.splits)



section \<open>What the CMJ-producing functions return\<close>

lemma is_cmj_message_message:
  "is_cmj_message (message role (trim n) (trim c)) \<longleftrightarrow> role \<in> set [''user'', ''assistant'', ''system'']"
  by (simp add: message_def trim_trim)

lemma html_records_trimmed:
  "(speaker, utterance) \<in> set (html_records ps) \<Longrightarrow> trim speaker = speaker \<and> trim utterance = utterance"
  by (induction ps)
    (auto simp: html_records_def html_record_def html_utterance_def trim_trim
      split: option.splits)

lemma text_records_trimmed:
  "(speaker, utterance) \<in> set (text_records s) \<Longrightarrow> trim speaker = speaker \<and> trim utterance = utterance"
proof (induction s rule: text_records.induct)
  case (1 s)
  show ?case
  proof (cases "exec block_regex s")
    case None
    with "1.prems" show ?thesis
      by (subst (asm) text_records.simps) simp
  next
    case (Some found)
    obtain match rest where found: "found = (match, rest)"
      by (cases found)
    from "1.prems" Some found
    have "(speaker, utterance) = (trim (match ! 1), trim (match ! 2))
        \<or> (speaker, utterance) \<in> set (text_records rest)"
      by (subst (asm) text_records.simps) simp
    then show ?thesis
    proof
      assume "(speaker, utterance) = (trim (match ! 1), trim (match ! 2))"
      then show ?thesis
        by (simp add: trim_trim)
    next
      assume "(speaker, utterance) \<in> set (text_records rest)"
      with Some found show ?thesis
        by (intro "1.IH") simp_all
    qed
  qed
qed

lemma html_role_names: "html_role machineName speaker \<in> set [''user'', ''assistant'', ''system'']"
  by (simp add: html_role_def)

lemma text_role_names: "text_role speaker \<in> set [''user'', ''assistant'', ''system'']"
  by (simp add: text_role_def)

section \<open>Evaluation\<close>

text \<open>The definitions that evaluate the functions on concrete texts.\<close>

lemmas evaluate =
  exec_def block_regex_def colon_regex_def remove_match_def label_char_def is_ws_def
  any_char_def trim_def trimStart_def trimEnd_def toUpperCase_def upper_char_def code_units_def
  message_def
  text_role_def html_role_def html_utterance_def escape_html_def replace_all_char_def
  html_paragraph_def Let_def

lemma escape_html_chars: "escape_html s = concat (map escape_char s)"
  by (induction s) (simp_all add: escape_html_def replace_all_char_def escape_char_def)

section \<open>The match of one block\<close>

lemma greedy_run:
  "list_all cls xs \<Longrightarrow>
   rmatch (Rep cls 0 Greedy # r) s (w @ xs, gs, map_option (\<lambda>g. g @ xs) cur) = Some res \<Longrightarrow>
   rmatch (Rep cls 0 Greedy # r) (xs @ s) (w, gs, cur) = Some res"
proof (induction xs arbitrary: w cur)
  case Nil
  then show ?case
    by (simp add: option.map_ident)
next
  case (Cons x xs)
  have "map_option (\<lambda>g. g @ x # xs) cur = map_option (\<lambda>g. g @ xs) (map_option (\<lambda>g. g @ [x]) cur)"
    by (simp add: option.map_comp comp_def)
  with Cons.prems have "rmatch (Rep cls 0 Greedy # r) s
      ((w @ [x]) @ xs, gs, map_option (\<lambda>g. g @ xs) (map_option (\<lambda>g. g @ [x]) cur)) = Some res"
    by simp
  with Cons.prems have "rmatch (Rep cls 0 Greedy # r) (xs @ s) (w @ [x], gs, map_option (\<lambda>g. g @ [x]) cur) = Some res"
    by (intro Cons.IH) simp_all
  with Cons.prems show ?case
    by simp
qed

lemma greedy_stop:
  "\<not> cls x \<Longrightarrow> rmatch (Rep cls 0 Greedy # r) (x # s) st = rmatch r (x # s) st"
  by simp

lemma lazy_until_blank_line:
  "\<not> has_blank_line xs \<Longrightarrow> xs = [] \<or> last xs \<noteq> CHR 0x0A \<Longrightarrow>
   rmatch [Rep any_char 0 Lazy, GroupClose, Lit CHR 0x0A, Lit CHR 0x0A]
       (xs @ CHR 0x0A # CHR 0x0A # rest) (w, gs, Some g)
     = Some ((w @ xs @ [CHR 0x0A, CHR 0x0A], gs @ [g @ xs], None), rest)"
proof (induction xs arbitrary: w g)
  case Nil
  then show ?case
    by simp
next
  case (Cons x xs)
  have tail: "\<not> has_blank_line xs" "xs = [] \<or> last xs \<noteq> CHR 0x0A"
    using Cons.prems by (cases xs; auto)+
  have here: "rmatch [GroupClose, Lit CHR 0x0A, Lit CHR 0x0A]
      (x # xs @ CHR 0x0A # CHR 0x0A # rest) (w, gs, Some g) = None"
  proof (cases "x = CHR 0x0A")
    case False
    then show ?thesis by simp
  next
    case True
    with Cons.prems obtain y ys where "xs = y # ys" and "y \<noteq> CHR 0x0A"
      by (cases xs) auto
    with True show ?thesis by simp
  qed
  from Cons.IH [OF tail, of "w @ [x]" "g @ [x]"] here show ?case
    by (simp add: any_char_def)
qed


lemma rmatch_block:
  assumes n: "n \<noteq> []" "list_all label_char n"
    and c: "c \<noteq> []" "\<not> is_ws (hd c)" "\<not> is_ws (last c)" "\<not> has_blank_line c"
  shows "rmatch block_regex (n @ '': '' @ c @ ''\<newline>\<newline>'' @ rest) ([], [], None)
    = Some ((n @ '': '' @ c @ ''\<newline>\<newline>'', [n, c], None), rest)"
proof -
  let ?tail = "[GroupOpen, Rep any_char 0 Lazy, GroupClose, Lit CHR 0x0A, Lit CHR 0x0A]"
  let ?mid = "GroupClose # Lit CHR '':'' # Rep is_ws 0 Greedy # ?tail"
  let ?res = "Some ((n @ '': '' @ c @ ''\<newline>\<newline>'', [n, c], None), rest)"
  obtain a n' where n': "n = a # n'"
    using n(1) by (cases n) auto
  obtain c1 c' where c': "c = c1 # c'"
    using c(1) by (cases c) auto
  have nl: "last c \<noteq> CHR 0x0A"
    using c(3) by (auto simp: is_ws_def)
  have lazy: "rmatch ?tail (c @ CHR 0x0A # CHR 0x0A # rest) (n @ '': '', [n], None) = ?res"
    using lazy_until_blank_line [OF c(4), of rest "n @ '': ''" "[n]" "[]"] nl by simp
  have "rmatch (Rep is_ws 0 Greedy # ?tail) (c @ CHR 0x0A # CHR 0x0A # rest) (n @ '': '', [n], None) = ?res"
    using lazy c(2) unfolding c' by simp
  then have "rmatch (Rep is_ws 0 Greedy # ?tail) ('' '' @ c @ CHR 0x0A # CHR 0x0A # rest)
      (n @ '':'', [n], None) = ?res"
    using greedy_run [where cls = is_ws and xs = "'' ''" and r = ?tail
        and s = "c @ CHR 0x0A # CHR 0x0A # rest" and w = "n @ '':''" and gs = "[n]"
        and cur = None and res = "((n @ '': '' @ c @ ''\<newline>\<newline>'', [n, c], None), rest)"]
    by (simp add: is_ws_def)
  then have mid: "rmatch ?mid ('': '' @ c @ CHR 0x0A # CHR 0x0A # rest) (n, [], Some n) = ?res"
    by simp
  have "\<not> label_char CHR '':''"
    by (simp add: label_char_def)
  then have "rmatch (Rep label_char 0 Greedy # ?mid) ('': '' @ c @ CHR 0x0A # CHR 0x0A # rest)
      (n, [], Some n) = ?res"
    using mid by simp
  then have "rmatch (Rep label_char 0 Greedy # ?mid) (n' @ '': '' @ c @ CHR 0x0A # CHR 0x0A # rest)
      ([a], [], Some [a]) = ?res"
    using n(2) greedy_run [where cls = label_char and xs = n' and r = ?mid
        and s = "'': '' @ c @ CHR 0x0A # CHR 0x0A # rest" and w = "[a]" and gs = "[]"
        and cur = "Some [a]" and res = "((n @ '': '' @ c @ ''\<newline>\<newline>'', [n, c], None), rest)"]
    unfolding n' by simp
  then show ?thesis
    using n(2) unfolding n' by (simp add: block_regex_def)
qed

lemma exec_block:
  assumes n: "n \<noteq> []" "list_all label_char n"
    and c: "c \<noteq> []" "\<not> is_ws (hd c)" "\<not> is_ws (last c)" "\<not> has_blank_line c"
  shows "exec block_regex (n @ '': '' @ c @ ''\<newline>\<newline>'' @ rest)
    = Some ([n @ '': '' @ c @ ''\<newline>\<newline>'', n, c], rest)"
proof -
  obtain a n' where n': "n = a # n'"
    using n(1) by (cases n) auto
  have "search block_regex (a # n' @ '': '' @ c @ ''\<newline>\<newline>'' @ rest)
    = Some ([], (n @ '': '' @ c @ ''\<newline>\<newline>'', [n, c], None), rest)"
    using rmatch_block [OF n c, of rest] unfolding n' by simp
  then show ?thesis
    unfolding n' by (simp add: exec_def)
qed

lemma text_records_block:
  assumes n: "n \<noteq> []" "list_all label_char n"
    and c: "c \<noteq> []" "\<not> is_ws (hd c)" "\<not> is_ws (last c)" "\<not> has_blank_line c"
    and t: "trim n = n" "trim c = c"
  shows "text_records (n @ '': '' @ c @ ''\<newline>\<newline>'' @ rest) = (n, c) # text_records rest"
  using exec_block [OF n c, of rest] by (subst text_records.simps) (simp add: t)

lemma text_records_empty: "text_records [] = []"
  by (subst text_records.simps) (simp add: exec_def block_regex_def)

lemma exec_last_block:
  assumes n: "n \<noteq> []" "list_all label_char n"
  shows "exec block_regex (n @ '': \<newline>\<newline>'') = Some ([n @ '': \<newline>\<newline>'', n, []], [])"
proof -
  let ?mid = "[GroupClose, Lit CHR '':'', Rep is_ws 0 Greedy, GroupOpen, Rep any_char 0 Lazy,
    GroupClose, Lit CHR 0x0A, Lit CHR 0x0A]"
  let ?res = "((n @ '': \<newline>\<newline>'', [n, []], None), [])"
  obtain a n' where n': "n = a # n'"
    using n(1) by (cases n) auto
  have "rmatch ?mid '': \<newline>\<newline>'' (n, [], Some n) = Some ?res"
    by (simp add: is_ws_def any_char_def)
  then have "rmatch (Rep label_char 0 Greedy # ?mid) '': \<newline>\<newline>'' (n, [], Some n) = Some ?res"
    by (simp add: label_char_def)
  then have "rmatch (Rep label_char 0 Greedy # ?mid) (n' @ '': \<newline>\<newline>'') ([a], [], Some [a]) = Some ?res"
    using n(2) greedy_run [where cls = label_char and xs = n' and r = ?mid
        and s = "'': \<newline>\<newline>''" and w = "[a]" and gs = "[]" and cur = "Some [a]" and res = ?res]
    unfolding n' by simp
  then have "rmatch block_regex (a # n' @ '': \<newline>\<newline>'') ([], [], None) = Some ?res"
    using n(2) unfolding n' by (simp add: block_regex_def)
  then show ?thesis
    unfolding n' by (simp add: exec_def)
qed

lemma text_records_last_block:
  assumes n: "n \<noteq> []" "list_all label_char n" and t: "trim n = n"
  shows "text_records (n @ '': \<newline>\<newline>'') = [(n, [])]"
  using exec_last_block [OF n]
  by (subst text_records.simps) (simp add: t text_records_empty trim_empty)

lemma cmj_block_well_formed:
  "well_formed m \<Longrightarrow>
     cmj_block m = trim (entry_name m) @ '': '' @ trim (entry_content m) @ ''\<newline>\<newline>''"
  by (auto simp: well_formed_def cmj_block_def entry_name_def entry_content_def)

lemma text_records_blocks:
  "round_trip_entries ms \<Longrightarrow>
     text_records (concat (map cmj_block ms))
       = map (\<lambda>m. (trim (entry_name m), trim (entry_content m))) ms"
proof (induction ms)
  case Nil
  then show ?case
    by (simp add: text_records_empty)
next
  case (Cons m ms)
  let ?n = "trim (entry_name m)" and ?c = "trim (entry_content m)"
  from Cons.prems have wf: "well_formed m" and n: "?n \<noteq> []" "list_all label_char ?n"
    and b: "\<not> has_blank_line ?c" and l: "?c \<noteq> [] \<or> ms = []" and ms: "round_trip_entries ms"
    by simp_all
  show ?case
  proof (cases "?c = []")
    case True
    with l have "ms = []"
      by simp
    with True text_records_last_block [OF n trim_trim] cmj_block_well_formed [OF wf] show ?thesis
      by simp
  next
    case False
    from trim_ends [OF False] have e: "\<not> is_ws (hd ?c)" "\<not> is_ws (last ?c)"
      by simp_all
    have "text_records (?n @ '': '' @ ?c @ ''\<newline>\<newline>'' @ concat (map cmj_block ms))
        = (?n, ?c) # text_records (concat (map cmj_block ms))"
      using n False e b by (rule text_records_block) (simp_all add: trim_trim)
    with Cons.IH [OF ms] cmj_block_well_formed [OF wf] show ?thesis
      by simp
  qed
qed

section \<open>Texts without a colon, and the colon after a label\<close>

lemma starts_with_append: "starts_with p (p @ s)"
  by (induction p) simp_all

lemma remove_first_prefix: "remove_first p (p @ s) = s"
proof (cases "p @ s")
  case Nil
  then show ?thesis by simp
next
  case (Cons a list)
  have "starts_with p (p @ s)"
    by (rule starts_with_append)
  then have "starts_with p (a # list)"
    by (simp only: Cons)
  then have "remove_first p (a # list) = drop (length p) (a # list)"
    by simp
  also have "\<dots> = drop (length p) (p @ s)"
    by (simp only: Cons)
  also have "\<dots> = s"
    by simp
  finally have "remove_first p (a # list) = s" .
  then show ?thesis
    by (simp only: Cons)
qed

lemma greedy_all:
  "rmatch [Rep cls 0 Greedy] s (w, gs, cur)
     = Some ((w @ takeWhile cls s, gs, map_option (\<lambda>g. g @ takeWhile cls s) cur), dropWhile cls s)"
proof (induction s arbitrary: w cur)
  case Nil
  then show ?case
    by (simp add: option.map_ident)
next
  case (Cons x s)
  show ?case
  proof (cases "cls x")
    case True
    have "map_option (\<lambda>g. g @ takeWhile cls s) (map_option (\<lambda>g. g @ [x]) cur)
        = map_option (\<lambda>g. g @ x # takeWhile cls s) cur"
      by (simp add: option.map_comp comp_def)
    with True Cons.IH [of "w @ [x]" "map_option (\<lambda>g. g @ [x]) cur"] show ?thesis
      by simp
  next
    case False
    then show ?thesis
      by (simp add: option.map_ident)
  qed
qed

lemma remove_match_colon: "remove_match colon_regex (CHR '':'' # rest) = dropWhile is_ws rest"
  by (simp add: remove_match_def colon_regex_def greedy_all)

lemma rmatch_needs_literal:
  "rmatch re s st = Some res \<Longrightarrow> Lit c \<in> set re \<Longrightarrow> c \<in> set s"
proof (induction re s st arbitrary: res rule: rmatch.induct)
  case (1 s st)
  then show ?case by simp
next
  case (2 c' r st)
  then show ?case by simp
next
  case (3 c' r x xs st)
  show ?case
  proof (cases "x = c'")
    case True
    show ?thesis
    proof (cases "c = c'")
      case same: True
      with True show ?thesis by simp
    next
      case False
      with "3.prems" have "Lit c \<in> set r"
        by simp
      moreover from True "3.prems" have "rmatch r xs (consume x st) = Some res"
        by simp
      ultimately have "c \<in> set xs"
        by (rule "3.IH" [OF True, rotated])
      then show ?thesis by simp
    qed
  next
    case False
    with "3.prems" show ?thesis by simp
  qed
next
  case (4 r s st)
  then show ?case by simp
next
  case (5 r s st)
  then show ?case by simp
next
  case (6 cls n q r st)
  then show ?case by simp
next
  case (7 cls n q r x xs st)
  show ?case
  proof (cases "cls x")
    case True
    with "7.prems" have "rmatch (Rep cls n q # r) xs (consume x st) = Some res"
        and "Lit c \<in> set (Rep cls n q # r)"
      by simp_all
    then have "c \<in> set xs"
      by (rule "7.IH" [OF True])
    then show ?thesis by simp
  next
    case False
    with "7.prems" show ?thesis by simp
  qed
next
  case (8 cls r st)
  then show ?case by simp
next
  case (9 cls r x xs st)
  from "9.prems" have lit: "Lit c \<in> set r" "Lit c \<in> set (Rep cls 0 Greedy # r)"
    by simp_all
  show ?case
  proof (cases "cls x")
    case True
    show ?thesis
    proof (cases "rmatch (Rep cls 0 Greedy # r) xs (consume x st)")
      case None
      with True "9.prems" have "rmatch r (x # xs) st = Some res"
        by simp
      then show ?thesis
        using lit(1) by (rule "9.IH"(2) [OF True None])
    next
      case (Some res')
      then have "c \<in> set xs"
        using lit(2) by (rule "9.IH"(1) [OF True])
      then show ?thesis by simp
    qed
  next
    case False
    with "9.prems" have "rmatch r (x # xs) st = Some res"
      by simp
    then show ?thesis
      using lit(1) by (rule "9.IH"(3) [OF False])
  qed
next
  case (10 cls r st)
  then show ?case by simp
next
  case (11 cls r x xs st)
  from "11.prems" have lit: "Lit c \<in> set r" "Lit c \<in> set (Rep cls 0 Lazy # r)"
    by simp_all
  show ?case
  proof (cases "rmatch r (x # xs) st")
    case None
    with "11.prems" have cx: "cls x" and m: "rmatch (Rep cls 0 Lazy # r) xs (consume x st) = Some res"
      by (simp_all split: if_splits)
    from "11.IH"(2) [OF None cx m lit(2)] show ?thesis
      by simp
  next
    case (Some res')
    then show ?thesis
      using lit(1) by (rule "11.IH"(1))
  qed
qed

lemma search_needs_literal:
  "Lit c \<in> set re \<Longrightarrow> c \<notin> set s \<Longrightarrow> search re s = None"
proof (induction s)
  case Nil
  have "rmatch re [] ([], [], None) = None"
  proof (cases "rmatch re [] ([], [], None)")
    case (Some res)
    from rmatch_needs_literal [OF Some Nil(1)] show ?thesis by simp
  qed simp
  then show ?case by simp
next
  case (Cons x xs)
  have "rmatch re (x # xs) ([], [], None) = None"
  proof (cases "rmatch re (x # xs) ([], [], None)")
    case (Some res)
    from rmatch_needs_literal [OF Some Cons.prems(1)] Cons.prems(2) show ?thesis by simp
  qed simp
  moreover from Cons have "search re xs = None"
    by simp
  ultimately show ?case by simp
qed

lemma text_records_no_colon: "CHR '':'' \<notin> set s \<Longrightarrow> text_records s = []"
proof -
  assume "CHR '':'' \<notin> set s"
  then have "search block_regex s = None"
    by (intro search_needs_literal) (simp_all add: block_regex_def)
  then show ?thesis
    by (subst text_records.simps) (simp add: exec_def)
qed

section \<open>The claims\<close>

text \<open>
  Claim C1, as the specification states it, fails: the round trip does not give back every
  array whose names and contents are strings and whose names are not the sentinels. The
  name \<^verbatim>\<open>Dr. Bob\<close> has a full stop, which the label class of the regular expression does not
  have, so the match starts after it and the name comes back as \<^verbatim>\<open>Bob\<close>.
\<close>

theorem round_trip_counterexample:
  "well_formed (JObj [(''name'', JStr ''Dr. Bob''), (''content'', JStr ''Hi'')])
   \<and> text_role (trim ''Dr. Bob'') = ''user''
   \<and> round_trip (JArr [JObj [(''name'', JStr ''Dr. Bob''), (''content'', JStr ''Hi'')]])
       = Inr (JArr [JObj [(''role'', JStr ''user''), (''name'', JStr ''Bob''),
                          (''content'', JStr ''Hi'')]])
   \<and> round_trip (JArr [JObj [(''name'', JStr ''Dr. Bob''), (''content'', JStr ''Hi'')]])
       \<noteq> Inr (JArr (map reclassified [JObj [(''name'', JStr ''Dr. Bob''), (''content'', JStr ''Hi'')]]))"
  by (simp add: round_trip_def CmjToPlatoText_array cmj_block_def well_formed_def
      platoTextToCmj_def text_cmj_loop.simps reclassified_def entry_name_def entry_content_def
      evaluate cong: option.case_cong_weak)

text \<open>
  The round trip also fails on the empty array (the text is empty, and \<open>platoTextToCmj\<close>
  throws on it), on an entry with an empty name (no label is found), on an entry with an
  empty content that is not the last one (the white space after the colon runs over the
  blank line, and the next block becomes the content), and on a content with a blank line
  (the content ends there).
\<close>

lemma round_trip_other_failures:
  "round_trip (JArr []) = Inl (Error ''Invalid input: platoText must be a non-empty string'')
   \<and> round_trip (JArr [JObj [(''name'', JStr []), (''content'', JStr ''Hi'')]]) = Inr (JArr [])
   \<and> round_trip (JArr [JObj [(''name'', JStr ''Bob''), (''content'', JStr [])],
                       JObj [(''name'', JStr ''Al''), (''content'', JStr ''x'')]])
       = Inr (JArr [JObj [(''role'', JStr ''user''), (''name'', JStr ''Bob''),
                          (''content'', JStr ''Al: x'')]])
   \<and> round_trip (JArr [JObj [(''name'', JStr ''Bob''), (''content'', JStr ''a\<newline>\<newline>b'')]])
       = Inr (JArr [JObj [(''role'', JStr ''user''), (''name'', JStr ''Bob''),
                          (''content'', JStr ''a'')]])"
  by (simp add: round_trip_def CmjToPlatoText_array cmj_block_def well_formed_def
      platoTextToCmj_def text_cmj_loop.simps evaluate cong: option.case_cong_weak)

text \<open>
  Claim C1, amended. For every array that is not empty and whose entries have a string
  name and a string content, the trimmed name not empty and made of the characters of the
  label class (letters, digits, underscore, space, hyphen), the trimmed content without a
  blank line and, except in the last entry, not empty, \<open>CmjToPlatoText\<close> followed by
  \<open>platoTextToCmj\<close> returns an array of the same length and order that holds, for each
  entry, the trimmed name, the trimmed content and the role that the text path gives to
  the trimmed name.
\<close>

theorem round_trip_law:
  "ms \<noteq> [] \<Longrightarrow> round_trip_entries ms \<Longrightarrow>
     round_trip (JArr ms) = Inr (JArr (map reclassified ms))"
proof -
  assume ne: "ms \<noteq> []" and all: "round_trip_entries ms"
  from ne obtain m ms' where ms: "ms = m # ms'"
    by (cases ms) auto
  with all have "well_formed m"
    by simp
  then have "cmj_block m \<noteq> []"
    by (simp add: cmj_block_well_formed)
  then have "concat (map cmj_block ms) \<noteq> []"
    by (simp add: ms)
  then have "platoTextToCmj (JStr (concat (map cmj_block ms)))
      = Inr (JArr (map (\<lambda>(speaker, utterance). message (text_role speaker) speaker utterance)
                     (text_records (concat (map cmj_block ms)))))"
    by (simp add: platoTextToCmj_def text_cmj_loop_records)
  also have "\<dots> = Inr (JArr (map reclassified ms))"
    by (simp add: text_records_blocks [OF all] reclassified_def comp_def)
  finally show ?thesis
    by (simp add: round_trip_def CmjToPlatoText_array)
qed

theorem round_trip_law_witness:
  "round_trip (JArr
      [JObj [(''role'', JStr ''user''), (''name'', JStr '' machina ratiocinatrix ''),
             (''content'', JStr ''Hello: there. '')],
       JObj [(''name'', JStr ''Bob-2''), (''content'', JStr ''Hi\<newline>you'')],
       JObj [(''name'', JStr ''Al''), (''content'', JStr '' '')]])
   = Inr (JArr
      [JObj [(''role'', JStr ''assistant''), (''name'', JStr ''machina ratiocinatrix''),
             (''content'', JStr ''Hello: there.'')],
       JObj [(''role'', JStr ''user''), (''name'', JStr ''Bob-2''), (''content'', JStr ''Hi\<newline>you'')],
       JObj [(''role'', JStr ''user''), (''name'', JStr ''Al''), (''content'', JStr [])]])"
  using round_trip_law [of
     "[JObj [(''role'', JStr ''user''), (''name'', JStr '' machina ratiocinatrix ''),
             (''content'', JStr ''Hello: there. '')],
       JObj [(''name'', JStr ''Bob-2''), (''content'', JStr ''Hi\<newline>you'')],
       JObj [(''name'', JStr ''Al''), (''content'', JStr '' '')]]"]
  by (simp add: well_formed_def entry_name_def entry_content_def reclassified_def evaluate)

text \<open>
  Claim C2. On the text of three blocks of the specification's scenario, \<open>platoTextToCmj\<close>
  returns the three messages of the scenario, in that order: the assistant's, the
  system's and the user's.
\<close>

theorem text_to_cmj_scenario:
  "platoTextToCmj (JStr ''MACHINA RATIOCINATRIX: Hello there.\<newline>\<newline>INSTRUCTIONS: Be concise.\<newline>\<newline>Alice: Hi!\<newline>\<newline>'')
     = Inr (JArr
         [JObj [(''role'', JStr ''assistant''), (''name'', JStr ''MACHINA RATIOCINATRIX''),
                (''content'', JStr ''Hello there.'')],
          JObj [(''role'', JStr ''system''), (''name'', JStr ''INSTRUCTIONS''),
                (''content'', JStr ''Be concise.'')],
          JObj [(''role'', JStr ''user''), (''name'', JStr ''Alice''), (''content'', JStr ''Hi!'')]])"
  by (simp add: platoTextToCmj_def text_cmj_loop.simps evaluate cong: option.case_cong_weak)

theorem text_to_cmj_scenario_witness:
  "(case platoTextToCmj (JStr ''MACHINA RATIOCINATRIX: Hello there.\<newline>\<newline>INSTRUCTIONS: Be concise.\<newline>\<newline>Alice: Hi!\<newline>\<newline>'') of
      Inl e \<Rightarrow> False
    | Inr v \<Rightarrow>
        isArray v
        \<and> map (\<lambda>m. string_field m ''role'') (the_array v)
            = [Some ''assistant'', Some ''system'', Some ''user'']
        \<and> map (\<lambda>m. string_field m ''name'') (the_array v)
            = [Some ''MACHINA RATIOCINATRIX'', Some ''INSTRUCTIONS'', Some ''Alice''])"
  using text_to_cmj_scenario by simp

text \<open>
  Claim C3. The role of a speaker label is assistant exactly when the upper-cased label
  equals the machine name (the configured value on the markup path, the fixed name
  MACHINA RATIOCINATRIX on the text path), system exactly when the upper-cased label is
  INSTRUCTIONS and the label is not the assistant's, and user otherwise. Only the label is
  upper-cased. Every message that the two functions return carries the role of its own
  name: the result is the list of the extracted records, each with the role of its
  speaker.
\<close>

theorem role_classification:
  "(html_role machineName speaker = ''assistant'' \<longleftrightarrow>
        strict_equals (toUpperCase speaker) machineName)
   \<and> (html_role machineName speaker = ''system'' \<longleftrightarrow>
        toUpperCase speaker = code_units ''INSTRUCTIONS''
        \<and> \<not> strict_equals (toUpperCase speaker) machineName)
   \<and> (html_role machineName speaker = ''user'' \<longleftrightarrow>
        toUpperCase speaker \<noteq> code_units ''INSTRUCTIONS''
        \<and> \<not> strict_equals (toUpperCase speaker) machineName)
   \<and> (text_role speaker = ''assistant'' \<longleftrightarrow>
        toUpperCase speaker = code_units ''MACHINA RATIOCINATRIX'')
   \<and> (text_role speaker = ''system'' \<longleftrightarrow> toUpperCase speaker = code_units ''INSTRUCTIONS'')
   \<and> (text_role speaker = ''user'' \<longleftrightarrow>
        toUpperCase speaker \<noteq> code_units ''INSTRUCTIONS''
        \<and> toUpperCase speaker \<noteq> code_units ''MACHINA RATIOCINATRIX'')
   \<and> platoHtmlToCmj dialogueParagraphs machineName (JStr (c # cs))
       = Inr (JArr (map (\<lambda>(speaker, utterance). message (html_role machineName speaker) speaker utterance)
                      (html_records (dialogueParagraphs (c # cs)))))
   \<and> platoTextToCmj (JStr (c # cs))
       = Inr (JArr (map (\<lambda>(speaker, utterance). message (text_role speaker) speaker utterance)
                      (text_records (c # cs))))"
  by (simp add: html_role_def text_role_def platoHtmlToCmj_def platoTextToCmj_def
      html_cmj_fold_records text_cmj_loop_records code_units_def)

theorem role_classification_witness:
  "html_role (JStr ''SOCRATES'') ''Socrates'' = ''assistant''
   \<and> html_role (JStr ''SOCRATES'') ''Instructions'' = ''system''
   \<and> html_role (JStr ''INSTRUCTIONS'') ''Instructions'' = ''assistant''
   \<and> html_role (JStr ''Socrates'') ''Socrates'' = ''user''
   \<and> html_role (JStr [CHR 0xB5]) [CHR 0xB5] = ''user''
   \<and> html_role (JStr [CHR 0xFF]) [CHR 0xFF] = ''user''
   \<and> html_role (JStr ''STRASSE'') [CHR ''s'', CHR ''t'', CHR ''r'', CHR ''a'', CHR 0xDF, CHR ''e'']
       = ''assistant''
   \<and> html_role (JStr [CHR 0xC9]) [CHR 0xE9] = ''assistant''
   \<and> html_role JUndefined ''Socrates'' = ''user''
   \<and> text_role ''machina Ratiocinatrix'' = ''assistant''
   \<and> text_role ''instructions'' = ''system''
   \<and> text_role ''Socrates'' = ''user''"
  using role_classification [of "JStr ''SOCRATES''" "''Socrates''"]
    role_classification [of "JStr ''SOCRATES''" "''Instructions''"]
    role_classification [of "JStr ''INSTRUCTIONS''" "''Instructions''"]
    role_classification [of "JStr ''Socrates''" "''Socrates''"]
    role_classification [of "JStr [CHR 0xB5]" "[CHR 0xB5]"]
    role_classification [of "JStr [CHR 0xFF]" "[CHR 0xFF]"]
    role_classification [of JNull "''machina Ratiocinatrix''"]
    role_classification [of JNull "''instructions''"]
  by (simp add: evaluate)

text \<open>
  Claim C4 fails on the code by a slip of the code. The regular expression that strips
  the colon after the speaker label has no anchor, so it removes the first colon of the
  remaining text wherever it stands. The markup that \<open>platoTextToPlatoHtml\<close> itself writes
  has no colon after the label, so a colon inside the utterance is the one removed: the
  utterance \<^verbatim>\<open>Time is 10:30\<close> is read back as \<^verbatim>\<open>Time is 1030\<close>.
\<close>

theorem colon_inside_utterance_removed:
  \<open>platoTextToPlatoHtml (JStr ''Bob: Time is 10:30\<newline>\<newline>'')
     = Inr ''<p class="dialogue"><span class="speaker">Bob</span> Time is 10:30</p>''
   \<and> html_utterance ''Bob'' ''Bob Time is 10:30'' = ''Time is 1030''
   \<and> platoHtmlToPlatoText
         (\<lambda>html. [\<lparr>textContent = ''Bob Time is 10:30'', speakerSpan = Some ''Bob''\<rparr>])
         (JStr ''<p class="dialogue"><span class="speaker">Bob</span> Time is 10:30</p>'')
       = Inr ''Bob: Time is 1030\<newline>\<newline>''
   \<and> platoHtmlToCmj
         (\<lambda>html. [\<lparr>textContent = ''Bob Time is 10:30'', speakerSpan = Some ''Bob''\<rparr>])
         (JStr ''MACHINA RATIOCINATRIX'')
         (JStr ''<p class="dialogue"><span class="speaker">Bob</span> Time is 10:30</p>'')
       = Inr (JArr [JObj [(''role'', JStr ''user''), (''name'', JStr ''Bob''),
                          (''content'', JStr ''Time is 1030'')]])\<close>
  by (simp add: platoTextToPlatoHtml_def platoHtmlToPlatoText_def platoHtmlToCmj_def
      html_text_step_def html_cmj_step_def text_html_loop.simps evaluate
      cong: option.case_cong_weak)

theorem colon_inside_utterance_removed_witness:
  \<open>html_utterance ''Bob'' ''Bob Time is 10:30'' \<noteq> ''Time is 10:30''
   \<and> platoHtmlToPlatoText
         (\<lambda>html. [\<lparr>textContent = ''Bob Time is 10:30'', speakerSpan = Some ''Bob''\<rparr>])
         (JStr ''<p class="dialogue"><span class="speaker">Bob</span> Time is 10:30</p>'')
       \<noteq> Inr ''Bob: Time is 10:30\<newline>\<newline>''\<close>
  using colon_inside_utterance_removed by simp

text \<open>
  Claim C5. For every text, \<open>platoTextToPlatoHtml\<close> returns the empty string when the
  text is blank and otherwise the paragraphs of the extracted records in order, each the
  opening tags, the speaker, the closing tag of the label, a space, the escaped
  utterance, the closing tag and a line feed. Escaping replaces every \<^verbatim>\<open><\<close> by \<^verbatim>\<open>&lt;\<close>
  and every \<^verbatim>\<open>>\<close> by \<^verbatim>\<open>&gt;\<close> and changes no other character. White space is then
  removed from the end of the whole output only. On the text of the specification's
  scenario the result is the paragraph of the scenario.
\<close>

theorem text_to_html_serialization:
  \<open>platoTextToPlatoHtml (JStr t)
     = Inr (if trim t = [] then []
            else trimEnd (concat (map
                   (\<lambda>(speaker, utterance).
                      ''<p class="dialogue"><span class="speaker">'' @ speaker @ ''</span> ''
                        @ concat (map escape_char utterance) @ ''</p>\<newline>'')
                   (text_records t))))
   \<and> platoTextToPlatoHtml (JStr ''Bob: Hi <there>\<newline>\<newline>'')
       = Inr ''<p class="dialogue"><span class="speaker">Bob</span> Hi &lt;there&gt;</p>''\<close>
proof
  have \<open>(\<lambda>(speaker, utterance). html_paragraph speaker (escape_html utterance))
      = (\<lambda>(speaker, utterance).
            ''<p class="dialogue"><span class="speaker">'' @ speaker @ ''</span> ''
              @ concat (map escape_char utterance) @ ''</p>\<newline>'')\<close>
    by (simp add: html_paragraph_def escape_html_chars)
  then show \<open>platoTextToPlatoHtml (JStr t)
     = Inr (if trim t = [] then []
            else trimEnd (concat (map
                   (\<lambda>(speaker, utterance).
                      ''<p class="dialogue"><span class="speaker">'' @ speaker @ ''</span> ''
                        @ concat (map escape_char utterance) @ ''</p>\<newline>'')
                   (text_records t))))\<close>
    by (simp add: platoTextToPlatoHtml_def text_html_loop_records)
next
  show \<open>platoTextToPlatoHtml (JStr ''Bob: Hi <there>\<newline>\<newline>'')
       = Inr ''<p class="dialogue"><span class="speaker">Bob</span> Hi &lt;there&gt;</p>''\<close>
    by (simp add: platoTextToPlatoHtml_def text_html_loop.simps evaluate
        cong: option.case_cong_weak)
qed

theorem text_to_html_serialization_witness:
  \<open>text_records ''Al: x > y\<newline>\<newline>Bo: <b>\<newline>\<newline>'' = [(''Al'', ''x > y''), (''Bo'', ''<b>'')]
   \<and> platoTextToPlatoHtml (JStr ''Al: x > y\<newline>\<newline>Bo: <b>\<newline>\<newline>'')
       = Inr ''<p class="dialogue"><span class="speaker">Al</span> x &gt; y</p>\<newline><p class="dialogue"><span class="speaker">Bo</span> &lt;b&gt;</p>''\<close>
proof -
  have r: "text_records ''Al: x > y\<newline>\<newline>Bo: <b>\<newline>\<newline>'' = [(''Al'', ''x > y''), (''Bo'', ''<b>'')]"
    by (simp add: text_records.simps evaluate cong: option.case_cong_weak)
  show ?thesis
    using text_to_html_serialization [of "''Al: x > y\<newline>\<newline>Bo: <b>\<newline>\<newline>''"]
    by (simp add: r escape_char_def trim_def trimStart_def trimEnd_def is_ws_def)
qed

text \<open>
  Claim C6. For every input that is the empty string or is not a string, \<open>platoHtmlToCmj\<close>
  and \<open>platoTextToCmj\<close> throw the invalid-input error at once: the result is the error,
  and no message array is returned. This holds for every parser and every machine name.
\<close>

theorem invalid_input_raises:
  "v = JStr [] \<or> typeof v \<noteq> ''string'' \<Longrightarrow>
     platoHtmlToCmj dialogueParagraphs machineName v
       = Inl (Error ''Invalid input: platoHtml must be a non-empty string'')
     \<and> platoTextToCmj v = Inl (Error ''Invalid input: platoText must be a non-empty string'')"
  by (auto simp: platoHtmlToCmj_def platoTextToCmj_def)

theorem invalid_input_raises_witness:
  "platoHtmlToCmj (\<lambda>html. []) (JStr ''MACHINA RATIOCINATRIX'') (JStr [])
       = Inl (Error ''Invalid input: platoHtml must be a non-empty string'')
   \<and> platoTextToCmj (JStr []) = Inl (Error ''Invalid input: platoText must be a non-empty string'')
   \<and> platoHtmlToCmj (\<lambda>html. []) (JStr ''MACHINA RATIOCINATRIX'') (JNum 7)
       = Inl (Error ''Invalid input: platoHtml must be a non-empty string'')
   \<and> platoTextToCmj JNull = Inl (Error ''Invalid input: platoText must be a non-empty string'')"
  using invalid_input_raises [of "JStr []" "\<lambda>html. []" "JStr ''MACHINA RATIOCINATRIX''"]
    invalid_input_raises [of "JNum 7" "\<lambda>html. []" "JStr ''MACHINA RATIOCINATRIX''"]
    invalid_input_raises [of JNull "\<lambda>html. []" "JStr ''MACHINA RATIOCINATRIX''"]
  by simp

text \<open>
  Claim C7. For every input string that is empty or consists of white space only,
  \<open>platoHtmlToPlatoText\<close> and \<open>platoTextToPlatoHtml\<close> return the empty string and throw
  nothing.
\<close>

theorem blank_input_returns_empty:
  "list_all is_ws s \<Longrightarrow>
     platoHtmlToPlatoText dialogueParagraphs (JStr s) = Inr []
     \<and> platoTextToPlatoHtml (JStr s) = Inr []"
  by (simp add: platoHtmlToPlatoText_def platoTextToPlatoHtml_def trim_all_ws)

theorem blank_input_returns_empty_witness:
  "list_all is_ws '' \<newline>  ''
   \<and> platoHtmlToPlatoText
         (\<lambda>html. [\<lparr>textContent = ''Bob: Hi'', speakerSpan = Some ''Bob''\<rparr>]) (JStr '' \<newline>  '')
       = Inr []
   \<and> platoTextToPlatoHtml (JStr '' \<newline>  '') = Inr []
   \<and> platoTextToPlatoHtml (JStr []) = Inr []"
  using blank_input_returns_empty [of "'' \<newline>  ''"
      "\<lambda>html. [\<lparr>textContent = ''Bob: Hi'', speakerSpan = Some ''Bob''\<rparr>]"]
    blank_input_returns_empty [of "[]" "\<lambda>html. []"]
  by (simp add: is_ws_def)

text \<open>
  Claim C8. \<open>CmjToPlatoText\<close> never throws. On a value that is not an array it returns the
  empty string and reports the error to the console. On an array it returns the blocks of
  its entries in order: a well-formed entry gives its trimmed name, a colon and a space,
  its trimmed content and two line feeds; an entry whose name or content is not a string
  gives nothing and is reported to the console, and the conversion goes on.
\<close>

theorem CmjToPlatoText_never_raises:
  "(\<not> isArray v \<longrightarrow>
      CmjToPlatoText v = Inr ([], [ConsoleError ''Invalid input: cmjMessages must be an array.'']))
   \<and> CmjToPlatoText (JArr ms)
       = Inr (concat (map cmj_block ms), map skipped (filter (\<lambda>m. \<not> well_formed m) ms))
   \<and> (\<exists>out. CmjToPlatoText v = Inr out)"
proof -
  have "\<exists>out. CmjToPlatoText v = Inr out"
    by (cases v) (simp_all add: CmjToPlatoText_array, simp_all add: CmjToPlatoText_def)
  then show ?thesis
    by (simp add: CmjToPlatoText_array) (simp add: CmjToPlatoText_def)
qed

theorem CmjToPlatoText_never_raises_witness:
  "CmjToPlatoText (JStr ''Bob'')
     = Inr ([], [ConsoleError ''Invalid input: cmjMessages must be an array.''])
   \<and> returned (CmjToPlatoText (JArr
         [JNull, JObj [(''name'', JStr '' Bob ''), (''content'', JStr ''Hey'')],
          JObj [(''name'', JStr ''Al'')], JNum 0,
          JObj [(''name'', JStr ''Al''), (''content'', JStr ''Ho'')]]))
       = Inr ''Bob: Hey\<newline>\<newline>Al: Ho\<newline>\<newline>''"
  using CmjToPlatoText_never_raises [of "JStr ''Bob''" "[]"]
    CmjToPlatoText_never_raises [of JNull
      "[JNull, JObj [(''name'', JStr '' Bob ''), (''content'', JStr ''Hey'')],
        JObj [(''name'', JStr ''Al'')], JNum 0,
        JObj [(''name'', JStr ''Al''), (''content'', JStr ''Ho'')]]"]
  by (auto simp: returned_def cmj_block_def trim_def trimStart_def trimEnd_def is_ws_def)

text \<open>
  Claim C9. The role field does not interfere: two arrays of the same length whose entries
  agree, position by position, on whether the name is a string and on that string, and
  likewise on the content, give the same returned text. The role field is never read, so
  changing, adding or removing it changes nothing; the witness removes it from one entry
  and changes it in another.
\<close>

theorem role_noninterference:
  "list_all2 (\<lambda>a b. string_field a ''name'' = string_field b ''name''
                  \<and> string_field a ''content'' = string_field b ''content'') ms ms' \<Longrightarrow>
     returned (CmjToPlatoText (JArr ms)) = returned (CmjToPlatoText (JArr ms'))"
proof -
  assume "list_all2 (\<lambda>a b. string_field a ''name'' = string_field b ''name''
                  \<and> string_field a ''content'' = string_field b ''content'') ms ms'"
  then have "list_all2 (\<lambda>a b. cmj_block a = cmj_block b) ms ms'"
    by (rule list_all2_mono) (simp only: cmj_block_def)
  then have "map cmj_block ms = map cmj_block ms'"
    by (induction rule: list_all2_induct) simp_all
  then show ?thesis
    by (simp add: returned_def CmjToPlatoText_array)
qed

theorem role_noninterference_witness:
  "returned (CmjToPlatoText (JArr
      [JObj [(''role'', JStr ''user''), (''name'', JStr ''Bob''), (''content'', JStr ''Hey'')],
       JObj [(''role'', JStr ''user''), (''name'', JNum 1), (''content'', JStr ''x'')]]))
   = returned (CmjToPlatoText (JArr
      [JObj [(''name'', JStr ''Bob''), (''content'', JStr ''Hey'')],
       JObj [(''role'', JStr ''system''), (''name'', JNull), (''content'', JStr ''x'')]]))"
  by (rule role_noninterference) simp

text \<open>
  Claim C10. Every message of the array that \<open>platoHtmlToCmj\<close> or \<open>platoTextToCmj\<close> returns
  is an object with the fields role, name and content whose role is user, assistant or
  system and whose name and content are unchanged by \<open>trim\<close>.
\<close>

theorem cmj_messages_invariant:
  "(platoHtmlToCmj dialogueParagraphs machineName v = Inr out
      \<longrightarrow> (\<exists>ms. out = JArr ms \<and> list_all is_cmj_message ms))
   \<and> (platoTextToCmj v = Inr out \<longrightarrow> (\<exists>ms. out = JArr ms \<and> list_all is_cmj_message ms))"
proof (intro conjI impI)
  assume a: "platoHtmlToCmj dialogueParagraphs machineName v = Inr out"
  then have "out = JArr (map (\<lambda>(speaker, utterance). message (html_role machineName speaker) speaker utterance)
                      (html_records (dialogueParagraphs (the_string v))))"
    by (simp add: platoHtmlToCmj_def html_cmj_fold_records split: if_splits)
  moreover have "list_all is_cmj_message
      (map (\<lambda>(speaker, utterance). message (html_role machineName speaker) speaker utterance)
         (html_records (dialogueParagraphs (the_string v))))"
    unfolding list_all_iff
  proof
    fix m
    assume "m \<in> set (map (\<lambda>(speaker, utterance). message (html_role machineName speaker) speaker utterance)
         (html_records (dialogueParagraphs (the_string v))))"
    then obtain sp ut where r: "(sp, ut) \<in> set (html_records (dialogueParagraphs (the_string v)))"
      and m: "m = message (html_role machineName sp) sp ut"
      by auto
    from html_records_trimmed [OF r] have "m = message (html_role machineName sp) (trim sp) (trim ut)"
      using m by simp
    then show "is_cmj_message m"
      using html_role_names by (simp only: is_cmj_message_message)
  qed
  ultimately show "\<exists>ms. out = JArr ms \<and> list_all is_cmj_message ms"
    by blast
next
  assume a: "platoTextToCmj v = Inr out"
  then have "out = JArr (map (\<lambda>(speaker, utterance). message (text_role speaker) speaker utterance)
                      (text_records (the_string v)))"
    by (simp add: platoTextToCmj_def text_cmj_loop_records split: if_splits)
  moreover have "list_all is_cmj_message
      (map (\<lambda>(speaker, utterance). message (text_role speaker) speaker utterance)
         (text_records (the_string v)))"
    unfolding list_all_iff
  proof
    fix m
    assume "m \<in> set (map (\<lambda>(speaker, utterance). message (text_role speaker) speaker utterance)
         (text_records (the_string v)))"
    then obtain sp ut where r: "(sp, ut) \<in> set (text_records (the_string v))"
      and m: "m = message (text_role sp) sp ut"
      by auto
    from text_records_trimmed [OF r] have "m = message (text_role sp) (trim sp) (trim ut)"
      using m by simp
    then show "is_cmj_message m"
      using text_role_names by (simp only: is_cmj_message_message)
  qed
  ultimately show "\<exists>ms. out = JArr ms \<and> list_all is_cmj_message ms"
    by blast
qed

theorem cmj_messages_invariant_witness:
  "platoHtmlToCmj
       (\<lambda>html. [\<lparr>textContent = '' Socrates : Know thyself '', speakerSpan = Some '' Socrates ''\<rparr>,
                 \<lparr>textContent = ''no label'', speakerSpan = None\<rparr>])
       (JStr ''SOCRATES'') (JStr ''markup'')
     = Inr (JArr [JObj [(''role'', JStr ''assistant''), (''name'', JStr ''Socrates''),
                        (''content'', JStr ''Know thyself'')]])
   \<and> is_cmj_message (JObj [(''role'', JStr ''assistant''), (''name'', JStr ''Socrates''),
                        (''content'', JStr ''Know thyself'')])
   \<and> platoTextToCmj (JStr '' Bob :  Hi there \<newline>\<newline>'')
     = Inr (JArr [JObj [(''role'', JStr ''user''), (''name'', JStr ''Bob''),
                        (''content'', JStr ''Hi there'')]])
   \<and> is_cmj_message (JObj [(''role'', JStr ''user''), (''name'', JStr ''Bob''),
                        (''content'', JStr ''Hi there'')])"
  using cmj_messages_invariant [of
      "\<lambda>html. [\<lparr>textContent = '' Socrates : Know thyself '', speakerSpan = Some '' Socrates ''\<rparr>,
                \<lparr>textContent = ''no label'', speakerSpan = None\<rparr>]"
      "JStr ''SOCRATES''" "JStr ''markup''"
      "JArr [JObj [(''role'', JStr ''assistant''), (''name'', JStr ''Socrates''),
                   (''content'', JStr ''Know thyself'')]]"]
    cmj_messages_invariant [of "\<lambda>html. []" JNull "JStr '' Bob :  Hi there \<newline>\<newline>''"
      "JArr [JObj [(''role'', JStr ''user''), (''name'', JStr ''Bob''),
                   (''content'', JStr ''Hi there'')]]"]
  by (simp add: platoHtmlToCmj_def platoTextToCmj_def html_cmj_step_def text_cmj_loop.simps
      remove_match_def evaluate cong: option.case_cong_weak)

section \<open>Further properties\<close>

text \<open>
  X1. Where the text of a dialogue paragraph starts with the speaker label and a colon
  follows the label at once, the utterance is the rest of the text, trimmed: only that
  colon and the white space after it are removed, later colons stay.
\<close>

theorem leading_colon_stripped:
  "html_utterance spanText (spanText @ CHR '':'' # rest) = trim rest"
  by (simp add: html_utterance_def remove_first_prefix remove_match_colon trim_def trimStart_def)

theorem leading_colon_stripped_witness:
  "html_utterance ''Bob'' ''Bob: Time is 10:30'' = ''Time is 10:30''"
  using leading_colon_stripped [of "''Bob''" "'' Time is 10:30''"]
  by (simp add: trim_def trimStart_def trimEnd_def is_ws_def)

text \<open>
  X2. The scenario of the specification for the serializer of messages: the array of the
  one message of Bob, without a role, gives the block of Bob.
\<close>

theorem cmj_to_text_scenario:
  "CmjToPlatoText (JArr [JObj [(''name'', JStr ''Bob''), (''content'', JStr ''Hey'')]])
     = Inr (''Bob: Hey\<newline>\<newline>'', [])"
  by (simp add: CmjToPlatoText_array cmj_block_def well_formed_def trim_def trimStart_def
      trimEnd_def is_ws_def)

theorem cmj_to_text_scenario_witness:
  "returned (CmjToPlatoText (JArr [JObj [(''name'', JStr ''Bob''), (''content'', JStr ''Hey'')]]))
     = Inr ''Bob: Hey\<newline>\<newline>''"
  using cmj_to_text_scenario by (simp add: returned_def)

text \<open>
  X3. A text that is not empty and has no colon has no block: \<open>platoTextToCmj\<close> returns the
  empty array and \<open>platoTextToPlatoHtml\<close> the empty string. A text of white space only is
  such a text, so \<open>platoTextToCmj\<close> does not throw on it.
\<close>

theorem text_without_colon:
  "s \<noteq> [] \<Longrightarrow> CHR '':'' \<notin> set s \<Longrightarrow>
     platoTextToCmj (JStr s) = Inr (JArr []) \<and> platoTextToPlatoHtml (JStr s) = Inr []"
  by (simp add: platoTextToCmj_def platoTextToPlatoHtml_def text_cmj_loop_records
      text_html_loop_records text_records_no_colon trimEnd_def)

theorem text_without_colon_witness:
  "platoTextToCmj (JStr '' \<newline> '') = Inr (JArr [])
   \<and> platoTextToPlatoHtml (JStr ''no label here\<newline>\<newline>'') = Inr []"
  using text_without_colon [of "'' \<newline> ''"] text_without_colon [of "''no label here\<newline>\<newline>''"]
  by simp

text \<open>
  X4. A dialogue paragraph without a speaker label is dropped: the document with the
  paragraph and the document without it are converted to the same messages and to the
  same text.
\<close>

theorem paragraph_without_speaker_dropped:
  "speakerSpan p = None \<Longrightarrow> withParagraph html = ps @ p # qs \<Longrightarrow> withoutParagraph html = ps @ qs \<Longrightarrow>
     platoHtmlToCmj withParagraph machineName (JStr html)
       = platoHtmlToCmj withoutParagraph machineName (JStr html)
     \<and> platoHtmlToPlatoText withParagraph (JStr html)
       = platoHtmlToPlatoText withoutParagraph (JStr html)"
proof -
  assume "speakerSpan p = None"
  then have "html_records (ps @ p # qs) = html_records (ps @ qs)"
    by (simp add: html_records_def map_filter_def html_record_def)
  moreover assume "withParagraph html = ps @ p # qs" and "withoutParagraph html = ps @ qs"
  ultimately have "html_records (withParagraph html) = html_records (withoutParagraph html)"
    by simp
  then show ?thesis
    by (simp add: platoHtmlToCmj_def platoHtmlToPlatoText_def html_cmj_fold_records
        html_text_fold_records)
qed

theorem paragraph_without_speaker_dropped_witness:
  "platoHtmlToCmj
      (\<lambda>html. [\<lparr>textContent = ''stage direction'', speakerSpan = None\<rparr>,
                \<lparr>textContent = ''Bob: Hi'', speakerSpan = Some ''Bob''\<rparr>])
      JUndefined (JStr ''markup'')
    = platoHtmlToCmj (\<lambda>html. [\<lparr>textContent = ''Bob: Hi'', speakerSpan = Some ''Bob''\<rparr>])
        JUndefined (JStr ''markup'')"
  using paragraph_without_speaker_dropped [of "\<lparr>textContent = ''stage direction'', speakerSpan = None\<rparr>"
      "\<lambda>html. [\<lparr>textContent = ''stage direction'', speakerSpan = None\<rparr>,
                \<lparr>textContent = ''Bob: Hi'', speakerSpan = Some ''Bob''\<rparr>]"
      "''markup''" "[]" "[\<lparr>textContent = ''Bob: Hi'', speakerSpan = Some ''Bob''\<rparr>]"
      "\<lambda>html. [\<lparr>textContent = ''Bob: Hi'', speakerSpan = Some ''Bob''\<rparr>]" JUndefined]
  by simp

end
